theory Spec2Isabelle
  imports Main
begin

unbundle bit_operations_syntax

section \<open>Data model\<close>

text \<open>
  A signed Pauli operator is the Python tuple \<open>(sign, string)\<close>: an unbounded integer
  and a string with one symbol per qubit. The functions below are those of
  \<^verbatim>\<open>fusion_update.py\<close> (\<^verbatim>\<open>support.py\<close> holds the same three functions).
\<close>

type_synonym pauli = "int \<times> string"

text \<open>
  The exceptions the module can raise, one constructor per raise site:
  the two \<^verbatim>\<open>assert len(P) == len(Q), "Mismatched length"\<close> statements,
  the failed lookup \<^verbatim>\<open>_SINGLE_MULT[(a,b)]\<close>,
  \<^verbatim>\<open>ValueError("Non-Hermitian phase ...")\<close> and
  \<^verbatim>\<open>ValueError("Measurement length does not match stabilizer length")\<close>.
\<close>

datatype error =
    MismatchedLength
  | KeyError
  | NonHermitianPhase
  | MeasurementLengthMismatch

section \<open>Pauli algebra\<close>

text \<open>The dictionary \<^verbatim>\<open>_SINGLE_MULT\<close>, entry by entry.\<close>

definition SINGLE_MULT :: "((char \<times> char) \<times> (int \<times> char)) list" where
  "SINGLE_MULT =
    [((CHR ''I'', CHR ''I''), (0, CHR ''I'')), ((CHR ''I'', CHR ''X''), (0, CHR ''X'')),
     ((CHR ''I'', CHR ''Y''), (0, CHR ''Y'')), ((CHR ''I'', CHR ''Z''), (0, CHR ''Z'')),
     ((CHR ''X'', CHR ''I''), (0, CHR ''X'')), ((CHR ''X'', CHR ''X''), (0, CHR ''I'')),
     ((CHR ''X'', CHR ''Y''), (1, CHR ''Z'')), ((CHR ''X'', CHR ''Z''), (3, CHR ''Y'')),
     ((CHR ''Y'', CHR ''I''), (0, CHR ''Y'')), ((CHR ''Y'', CHR ''X''), (3, CHR ''Z'')),
     ((CHR ''Y'', CHR ''Y''), (0, CHR ''I'')), ((CHR ''Y'', CHR ''Z''), (1, CHR ''X'')),
     ((CHR ''Z'', CHR ''I''), (0, CHR ''Z'')), ((CHR ''Z'', CHR ''X''), (1, CHR ''Y'')),
     ((CHR ''Z'', CHR ''Y''), (3, CHR ''X'')), ((CHR ''Z'', CHR ''Z''), (0, CHR ''I''))]"

text \<open>
  The loop of \<^verbatim>\<open>multiply_pauli\<close> over \<^verbatim>\<open>zip(P,Q)\<close>, with the loop variables
  \<^verbatim>\<open>phase_exp\<close> and \<^verbatim>\<open>out_chars\<close> as accumulators. A pair of symbols that is not a key of
  the dictionary raises.
\<close>

fun mult_loop :: "(char \<times> char) list \<Rightarrow> int \<Rightarrow> string \<Rightarrow> error + (int \<times> string)" where
  "mult_loop [] phase_exp out_chars = Inr (phase_exp, out_chars)"
| "mult_loop ((a, b) # rest) phase_exp out_chars =
     (case map_of SINGLE_MULT (a, b) of
        None \<Rightarrow> Inl KeyError
      | Some (e, r) \<Rightarrow> mult_loop rest ((phase_exp + e) mod 4) (out_chars @ [r]))"

definition multiply_pauli :: "pauli \<Rightarrow> pauli \<Rightarrow> error + pauli" where
  "multiply_pauli p q =
     (case p of (sp, P) \<Rightarrow> case q of (sq, Q) \<Rightarrow>
        if length P \<noteq> length Q then Inl MismatchedLength
        else (case mult_loop (zip P Q) 0 [] of
                Inl err \<Rightarrow> Inl err
              | Inr (phase_exp, out_chars) \<Rightarrow>
                  if phase_exp mod 2 \<noteq> 0 then Inl NonHermitianPhase
                  else Inr (sp * sq * (if phase_exp = 0 then 1 else - 1), out_chars)))"

text \<open>The set literal \<^verbatim>\<open>anti_pairs\<close> of \<^verbatim>\<open>anticommutes\<close>.\<close>

definition anti_pairs :: "(char \<times> char) list" where
  "anti_pairs =
    [(CHR ''X'', CHR ''Y''), (CHR ''Y'', CHR ''X''), (CHR ''X'', CHR ''Z''),
     (CHR ''Z'', CHR ''X''), (CHR ''Y'', CHR ''Z''), (CHR ''Z'', CHR ''Y'')]"

text \<open>The loop of \<^verbatim>\<open>anticommutes\<close>; \<^verbatim>\<open>parity ^= 1\<close> is exclusive or on integers.\<close>

fun parity_loop :: "(char \<times> char) list \<Rightarrow> int \<Rightarrow> int" where
  "parity_loop [] parity = parity"
| "parity_loop ((a, b) # rest) parity =
     parity_loop rest
       (if a \<noteq> CHR ''I'' \<and> b \<noteq> CHR ''I'' \<and> a \<noteq> b \<and> (a, b) \<in> set anti_pairs
        then parity XOR 1 else parity)"

definition anticommutes :: "string \<Rightarrow> string \<Rightarrow> error + bool" where
  "anticommutes P Q =
     (if length P \<noteq> length Q then Inl MismatchedLength
      else Inr (parity_loop (zip P Q) 0 = 1))"

section \<open>Resource updater\<close>

text \<open>
  The comprehension \<^verbatim>\<open>[j for j,(sg, G) in enumerate(gens) if anticommutes(G, M)]\<close>:
  \<open>j\<close> is the counter of \<^verbatim>\<open>enumerate\<close>; the first generator whose test raises ends
  the scan with that exception.
\<close>

fun anti_scan :: "nat \<Rightarrow> pauli list \<Rightarrow> string \<Rightarrow> error + nat list" where
  "anti_scan j [] M = Inr []"
| "anti_scan j ((sg, G) # gens) M =
     (case anticommutes G M of
        Inl err \<Rightarrow> Inl err
      | Inr t \<Rightarrow> (case anti_scan (Suc j) gens M of
                   Inl err \<Rightarrow> Inl err
                 | Inr js \<Rightarrow> Inr (if t then j # js else js)))"

definition anti_idx :: "pauli list \<Rightarrow> string \<Rightarrow> error + nat list" where
  "anti_idx gens M = anti_scan 0 gens M"

text \<open>
  The inner loop \<^verbatim>\<open>for j in anti_idx[1:]: gens[j] = multiply_pauli(gens[j], old_pivot)\<close>.
  The working list is threaded through; when a product raises, the list as mutated so far
  is returned beside the exception. Every \<open>j\<close> comes from \<^verbatim>\<open>enumerate(gens)\<close> and no entry
  is removed, so the subscript is in range.
\<close>

fun combine_loop :: "nat list \<Rightarrow> pauli \<Rightarrow> pauli list \<Rightarrow> pauli list \<times> error option" where
  "combine_loop [] old_pivot gens = (gens, None)"
| "combine_loop (j # js) old_pivot gens =
     (case multiply_pauli (gens ! j) old_pivot of
        Inl err \<Rightarrow> (gens, Some err)
      | Inr r \<Rightarrow> combine_loop js old_pivot (gens[j := r]))"

text \<open>\<^verbatim>\<open>outcomes.get(M, +1)\<close>\<close>

definition outcome_of :: "(string \<rightharpoonup> int) \<Rightarrow> string \<Rightarrow> int" where
  "outcome_of outcomes M = (case outcomes M of None \<Rightarrow> 1 | Some v \<Rightarrow> v)"

text \<open>The body of the loop \<^verbatim>\<open>for M in fusion_meas\<close>, for one measurement.\<close>

definition process_measurement ::
  "nat \<Rightarrow> (string \<rightharpoonup> int) \<Rightarrow> string \<Rightarrow> pauli list \<Rightarrow> pauli list \<times> error option" where
  "process_measurement n outcomes M gens =
     (if length M \<noteq> n then (gens, Some MeasurementLengthMismatch)
      else
        let outcome = outcome_of outcomes M in
        (case anti_idx gens M of
           Inl err \<Rightarrow> (gens, Some err)
         | Inr [] \<Rightarrow> (gens @ [(outcome, M)], None)
         | Inr (p # others) \<Rightarrow>
             let old_pivot = gens ! p in
             combine_loop others old_pivot (gens[p := (outcome, M)])))"

fun fusion_loop ::
  "nat \<Rightarrow> (string \<rightharpoonup> int) \<Rightarrow> string list \<Rightarrow> pauli list \<Rightarrow> pauli list \<times> error option" where
  "fusion_loop n outcomes [] gens = (gens, None)"
| "fusion_loop n outcomes (M # Ms) gens =
     (case process_measurement n outcomes M gens of
        (gens', Some err) \<Rightarrow> (gens', Some err)
      | (gens', None) \<Rightarrow> fusion_loop n outcomes Ms gens')"

text \<open>
  \<^verbatim>\<open>n = len(gens[0][1]) if gens else (len(fusion_meas[0]) if fusion_meas else 0)\<close>
\<close>

definition qubit_count :: "pauli list \<Rightarrow> string list \<Rightarrow> nat" where
  "qubit_count gens fusion_meas =
     (case gens of
        g # _ \<Rightarrow> length (snd g)
      | [] \<Rightarrow> (case fusion_meas of M # _ \<Rightarrow> length M | [] \<Rightarrow> 0))"

text \<open>\<^verbatim>\<open>if outcomes is None: outcomes = {}\<close>\<close>

definition outcomes_or_empty :: "(string \<rightharpoonup> int) option \<Rightarrow> (string \<rightharpoonup> int)" where
  "outcomes_or_empty outcomes = (case outcomes of None \<Rightarrow> Map.empty | Some d \<Rightarrow> d)"

text \<open>
  \<^verbatim>\<open>update_resource_with_fusions\<close> as its caller sees the result: the returned list, or
  the exception that left the function.
\<close>

definition update_resource_with_fusions ::
  "pauli list \<Rightarrow> string list \<Rightarrow> (string \<rightharpoonup> int) option \<Rightarrow> error + pauli list" where
  "update_resource_with_fusions resource_gens fusion_meas outcomes =
     (case fusion_loop (qubit_count resource_gens fusion_meas) (outcomes_or_empty outcomes)
             fusion_meas resource_gens of
        (gens, None) \<Rightarrow> Inr gens
      | (gens, Some err) \<Rightarrow> Inl err)"

text \<open>
  The store of list objects, for the question whether the caller's list is written to.
  An address is an index into the store; a new list object is allocated at the end.
  \<^verbatim>\<open>gens = resource_gens[:]\<close> allocates a new list with the elements of the caller's;
  every later \<^verbatim>\<open>gens.append\<close> and \<^verbatim>\<open>gens[j] = ...\<close> writes to that object, whose
  contents \<open>fusion_loop\<close> threads through. The call returns the store it leaves behind
  and either the address of the returned list or the exception.
\<close>

type_synonym store = "pauli list list"

definition update_call ::
  "store \<Rightarrow> nat \<Rightarrow> string list \<Rightarrow> (string \<rightharpoonup> int) option \<Rightarrow> store \<times> (error + nat)" where
  "update_call s resource_gens fusion_meas outcomes =
     (let gens = length s;
          s1 = s @ [s ! resource_gens];
          n = qubit_count (s1 ! gens) fusion_meas
      in (case fusion_loop n (outcomes_or_empty outcomes) fusion_meas (s1 ! gens) of
            (final, None) \<Rightarrow> (s1[gens := final], Inr gens)
          | (final, Some err) \<Rightarrow> (s1[gens := final], Inl err)))"

section \<open>Notions of the specification\<close>

text \<open>The four-symbol alphabet of Pauli strings.\<close>

definition pauli_alphabet :: "char set" where
  "pauli_alphabet = {CHR ''I'', CHR ''X'', CHR ''Y'', CHR ''Z''}"

text \<open>
  The single-qubit product table in the specification's words, to be compared with the
  dictionary of the code: \<open>I\<close> is neutral with phase 0, equal symbols give \<open>I\<close> with
  phase 0, and the six mixed products carry the phase \<open>i\<close> (exponent 1) or \<open>-i\<close>
  (exponent 3). The last branch is the product \<open>X\<cdot>Z\<close> on the alphabet.
\<close>

definition spec_single_product :: "char \<Rightarrow> char \<Rightarrow> int \<times> char" where
  "spec_single_product a b =
     (if a = CHR ''I'' then (0, b)
      else if b = CHR ''I'' then (0, a)
      else if a = b then (0, CHR ''I'')
      else if (a, b) = (CHR ''X'', CHR ''Y'') then (1, CHR ''Z'')
      else if (a, b) = (CHR ''Y'', CHR ''X'') then (3, CHR ''Z'')
      else if (a, b) = (CHR ''Y'', CHR ''Z'') then (1, CHR ''X'')
      else if (a, b) = (CHR ''Z'', CHR ''Y'') then (3, CHR ''X'')
      else if (a, b) = (CHR ''Z'', CHR ''X'') then (1, CHR ''Y'')
      else (3, CHR ''Y''))"

text \<open>The phase exponent summed over all positions, modulo 4, and the result string.\<close>

definition spec_total_exponent :: "string \<Rightarrow> string \<Rightarrow> int" where
  "spec_total_exponent P Q =
     sum_list (map (\<lambda>(a, b). fst (spec_single_product a b)) (zip P Q)) mod 4"

definition spec_product_string :: "string \<Rightarrow> string \<Rightarrow> string" where
  "spec_product_string P Q = map (\<lambda>(a, b). snd (spec_single_product a b)) (zip P Q)"

text \<open>The test of one position in \<^verbatim>\<open>anticommutes\<close>, named for the proofs.\<close>

definition pair_anticommutes :: "char \<times> char \<Rightarrow> bool" where
  "pair_anticommutes ab =
     (fst ab \<noteq> CHR ''I'' \<and> snd ab \<noteq> CHR ''I'' \<and> fst ab \<noteq> snd ab \<and> ab \<in> set anti_pairs)"

text \<open>
  The working list after the first \<open>k\<close> measurements of a run, and the number of
  measurements of the run whose scan of the then current list found no anticommuting
  generator (Case A).
\<close>

definition working_after ::
  "nat \<Rightarrow> (string \<rightharpoonup> int) \<Rightarrow> string list \<Rightarrow> pauli list \<Rightarrow> nat \<Rightarrow> pauli list" where
  "working_after n outcomes fusion_meas gens k =
     fst (fusion_loop n outcomes (take k fusion_meas) gens)"

definition case_a_count ::
  "nat \<Rightarrow> (string \<rightharpoonup> int) \<Rightarrow> string list \<Rightarrow> pauli list \<Rightarrow> nat" where
  "case_a_count n outcomes fusion_meas gens =
     length (filter
       (\<lambda>k. anti_idx (working_after n outcomes fusion_meas gens k) (fusion_meas ! k) = Inr [])
       [0..<length fusion_meas])"

section \<open>Pauli algebra: the code against the product table\<close>

lemma parity_loop_self: "parity_loop (zip P P) parity = parity"
  by (induction P arbitrary: parity) auto

lemma anti_pairs_sym: "(a, b) \<in> set anti_pairs \<longleftrightarrow> (b, a) \<in> set anti_pairs"
  by (auto simp: anti_pairs_def)

lemma parity_loop_sym: "parity_loop (zip P Q) parity = parity_loop (zip Q P) parity"
proof (induction P arbitrary: Q parity)
  case Nil
  then show ?case by simp
next
  case (Cons a P)
  show ?case
  proof (cases Q)
    case Nil
    then show ?thesis by simp
  next
    case (Cons b Q')
    have "(a, b) \<in> set anti_pairs \<longleftrightarrow> (b, a) \<in> set anti_pairs"
      by (rule anti_pairs_sym)
    with Cons Cons.IH [of Q'] show ?thesis by auto
  qed
qed

lemma single_mult_spec:
  "a \<in> pauli_alphabet \<Longrightarrow> b \<in> pauli_alphabet \<Longrightarrow>
   map_of SINGLE_MULT (a, b) = Some (spec_single_product a b)"
  by (auto simp: pauli_alphabet_def SINGLE_MULT_def spec_single_product_def)

lemma mult_loop_spec:
  "\<forall>(a, b) \<in> set ps. a \<in> pauli_alphabet \<and> b \<in> pauli_alphabet \<Longrightarrow>
   mult_loop ps (e mod 4) out =
     Inr ((e + sum_list (map (\<lambda>(a, b). fst (spec_single_product a b)) ps)) mod 4,
          out @ map (\<lambda>(a, b). snd (spec_single_product a b)) ps)"
proof (induction ps arbitrary: e out)
  case Nil
  then show ?case by simp
next
  case (Cons ab ps)
  obtain a b where ab: "ab = (a, b)" by (cases ab)
  obtain e' r where sp: "spec_single_product a b = (e', r)" by (cases "spec_single_product a b")
  from Cons.prems ab have "a \<in> pauli_alphabet" "b \<in> pauli_alphabet" by auto
  then have look: "map_of SINGLE_MULT (a, b) = Some (e', r)"
    using single_mult_spec sp by simp
  have step: "(e mod 4 + e') mod 4 = (e + e') mod 4"
    by (simp add: mod_add_left_eq)
  from Cons.prems have rest: "\<forall>(a, b) \<in> set ps. a \<in> pauli_alphabet \<and> b \<in> pauli_alphabet"
    by simp
  show ?case
    using Cons.IH [OF rest, of "e + e'" "out @ [r]"]
    by (simp add: ab look step sp add.assoc)
qed

lemma zip_alphabet:
  "set P \<subseteq> pauli_alphabet \<Longrightarrow> set Q \<subseteq> pauli_alphabet \<Longrightarrow>
   \<forall>(a, b) \<in> set (zip P Q). a \<in> pauli_alphabet \<and> b \<in> pauli_alphabet"
  by (auto dest: set_zip_leftD set_zip_rightD)

lemma multiply_pauli_spec:
  assumes "length P = length Q" "set P \<subseteq> pauli_alphabet" "set Q \<subseteq> pauli_alphabet"
  shows "multiply_pauli (sp, P) (sq, Q) =
           (if spec_total_exponent P Q mod 2 \<noteq> 0 then Inl NonHermitianPhase
            else Inr (sp * sq * (if spec_total_exponent P Q = 0 then 1 else - 1),
                      spec_product_string P Q))"
proof -
  have "mult_loop (zip P Q) (0 mod 4) [] =
          Inr (spec_total_exponent P Q, spec_product_string P Q)"
    using mult_loop_spec [OF zip_alphabet [OF assms(2,3)], of 0 "[]"]
    by (simp add: spec_total_exponent_def spec_product_string_def)
  then show ?thesis
    using assms(1) by (simp add: multiply_pauli_def)
qed

lemma xor1: "(p mod 2) XOR (1::int) = (p + 1) mod 2"
proof -
  have "p mod 2 = 0 \<or> p mod 2 = 1" by presburger
  then consider "p mod 2 = 0" | "p mod 2 = 1" by blast
  then show ?thesis
  proof cases
    case 1
    then have "(p + 1) mod 2 = 1" by presburger
    with 1 show ?thesis by simp
  next
    case 2
    then have "(p + 1) mod 2 = 0" by presburger
    with 2 show ?thesis by simp
  qed
qed

lemma spec_phase_parity:
  "a \<in> pauli_alphabet \<Longrightarrow> b \<in> pauli_alphabet \<Longrightarrow>
   fst (spec_single_product a b) mod 2 = (if pair_anticommutes (a, b) then 1 else 0)"
  by (auto simp: pauli_alphabet_def spec_single_product_def pair_anticommutes_def anti_pairs_def)

lemma parity_loop_spec:
  "\<forall>(a, b) \<in> set ps. a \<in> pauli_alphabet \<and> b \<in> pauli_alphabet \<Longrightarrow>
   parity_loop ps (p mod 2) =
     (p + sum_list (map (\<lambda>(a, b). fst (spec_single_product a b)) ps)) mod 2"
proof (induction ps arbitrary: p)
  case Nil
  then show ?case by simp
next
  case (Cons ab ps)
  obtain a b where ab: "ab = (a, b)" by (cases ab)
  from Cons.prems ab have mem: "a \<in> pauli_alphabet" "b \<in> pauli_alphabet" by auto
  from Cons.prems have rest: "\<forall>(a, b) \<in> set ps. a \<in> pauli_alphabet \<and> b \<in> pauli_alphabet"
    by simp
  let ?e = "fst (spec_single_product a b)"
  let ?S = "sum_list (map (\<lambda>(a, b). fst (spec_single_product a b)) ps)"
  show ?case
  proof (cases "pair_anticommutes (a, b)")
    case True
    then have odd: "?e mod 2 = 1" using spec_phase_parity [OF mem] by simp
    have "parity_loop (ab # ps) (p mod 2) = parity_loop ps ((p + 1) mod 2)"
      using True by (simp add: ab pair_anticommutes_def xor1)
    also have "\<dots> = (p + 1 + ?S) mod 2" by (rule Cons.IH [OF rest])
    also have "\<dots> = (p + (?e + ?S)) mod 2" using odd by presburger
    finally show ?thesis by (simp add: ab)
  next
    case False
    then have even: "?e mod 2 = 0" using spec_phase_parity [OF mem] by simp
    have "parity_loop (ab # ps) (p mod 2) = parity_loop ps (p mod 2)"
      using False by (auto simp: ab pair_anticommutes_def)
    also have "\<dots> = (p + ?S) mod 2" by (rule Cons.IH [OF rest])
    also have "\<dots> = (p + (?e + ?S)) mod 2" using even by presburger
    finally show ?thesis by (simp add: ab)
  qed
qed

lemma anticommutes_spec:
  assumes "length P = length Q" "set P \<subseteq> pauli_alphabet" "set Q \<subseteq> pauli_alphabet"
  shows "anticommutes P Q = Inr (spec_total_exponent P Q mod 2 \<noteq> 0)"
proof -
  let ?S = "sum_list (map (\<lambda>(a, b). fst (spec_single_product a b)) (zip P Q))"
  have "parity_loop (zip P Q) (0 mod 2) = (0 + ?S) mod 2"
    by (rule parity_loop_spec [OF zip_alphabet [OF assms(2,3)]])
  moreover have "(?S mod 4) mod 2 = ?S mod 2" by presburger
  moreover have "?S mod 2 = 0 \<or> ?S mod 2 = 1" by presburger
  ultimately show ?thesis
    using assms(1) by (auto simp: anticommutes_def spec_total_exponent_def)
qed

section \<open>The claims on the Pauli algebra and on scenario 1\<close>

text \<open>
  Claim C10. For every string \<open>P\<close>, of any characters and any length,
  \<^verbatim>\<open>anticommutes(P, P)\<close> returns false: no position adds to the parity when the two
  symbols are equal.
\<close>

theorem anticommutes_self: "anticommutes P P = Inr False"
  by (simp add: anticommutes_def parity_loop_self)

text \<open>
  Claim C9. For strings \<open>P\<close> and \<open>Q\<close> of equal length, \<^verbatim>\<open>anticommutes(P, Q)\<close> and
  \<^verbatim>\<open>anticommutes(Q, P)\<close> return the same truth value (and neither raises). The symbols
  need not be Pauli symbols.
\<close>

theorem anticommutes_symmetric:
  assumes "length P = length Q"
  shows "\<exists>t. anticommutes P Q = Inr t \<and> anticommutes Q P = Inr t"
  using assms parity_loop_sym [of P Q 0] by (simp add: anticommutes_def)

text \<open>Witness of C9: a pair of strings of length four, evaluated in both orders.\<close>

theorem anticommutes_symmetric_witness:
  "anticommutes ''XZIY'' ''ZZYX'' = Inr False \<and> anticommutes ''ZZYX'' ''XZIY'' = Inr False"
proof -
  have "length ''XZIY'' = length ''ZZYX''" by simp
  from anticommutes_symmetric [OF this]
  obtain t where t: "anticommutes ''XZIY'' ''ZZYX'' = Inr t" "anticommutes ''ZZYX'' ''XZIY'' = Inr t"
    by blast
  have "anticommutes ''XZIY'' ''ZZYX'' = Inr False"
    by (simp add: anticommutes_def anti_pairs_def)
  with t show ?thesis by simp
qed

text \<open>
  Claim C3. For signed operators \<open>(sp, P)\<close> and \<open>(sq, Q)\<close> with \<open>P\<close> and \<open>Q\<close> of equal
  length over the alphabet, \<^verbatim>\<open>multiply_pauli\<close> returns the string of the per-position
  products of the specification's table, in position order, with the sign \<open>sp * sq * 1\<close>
  when the exponents of the table sum to 0 modulo 4 and \<open>sp * sq * (-1)\<close> when they sum
  to 2 modulo 4.
\<close>

theorem multiply_pauli_table:
  assumes "length P = length Q" "set P \<subseteq> pauli_alphabet" "set Q \<subseteq> pauli_alphabet"
  shows "(spec_total_exponent P Q = 0 \<longrightarrow>
            multiply_pauli (sp, P) (sq, Q) = Inr (sp * sq * 1, spec_product_string P Q)) \<and>
         (spec_total_exponent P Q = 2 \<longrightarrow>
            multiply_pauli (sp, P) (sq, Q) = Inr (sp * sq * (- 1), spec_product_string P Q))"
  by (simp add: multiply_pauli_spec [OF assms])

text \<open>Witness of C3: two products with phase \<open>i\<close> give the sign \<open>-1\<close>.\<close>

theorem multiply_pauli_table_witness:
  "spec_total_exponent ''XXIZ'' ''YYZZ'' = 2 \<and>
   multiply_pauli (1, ''XXIZ'') (- 1, ''YYZZ'') = Inr (1, ''ZZZI'')"
proof -
  have e: "spec_total_exponent ''XXIZ'' ''YYZZ'' = 2"
    by (simp add: spec_total_exponent_def spec_single_product_def)
  have r: "spec_product_string ''XXIZ'' ''YYZZ'' = ''ZZZI''"
    by (simp add: spec_product_string_def spec_single_product_def)
  show ?thesis
    using multiply_pauli_table [of "''XXIZ''" "''YYZZ''" 1 "- 1"] e r
    by (simp add: pauli_alphabet_def)
qed

text \<open>
  Claim C4. For operators of equal length over the alphabet, \<^verbatim>\<open>multiply_pauli\<close> raises
  the non-Hermitian phase error if and only if the phase exponent accumulated over all
  positions is odd, that is 1 or 3.
\<close>

theorem multiply_pauli_non_hermitian:
  assumes "length P = length Q" "set P \<subseteq> pauli_alphabet" "set Q \<subseteq> pauli_alphabet"
  shows "multiply_pauli (sp, P) (sq, Q) = Inl NonHermitianPhase \<longleftrightarrow>
           spec_total_exponent P Q = 1 \<or> spec_total_exponent P Q = 3"
proof -
  have "0 \<le> spec_total_exponent P Q \<and> spec_total_exponent P Q < 4"
    by (simp add: spec_total_exponent_def)
  then have "spec_total_exponent P Q mod 2 \<noteq> 0 \<longleftrightarrow>
               spec_total_exponent P Q = 1 \<or> spec_total_exponent P Q = 3"
    by presburger
  then show ?thesis
    by (simp add: multiply_pauli_spec [OF assms])
qed

text \<open>
  Witness of C4: a direct call on two operators of length two whose exponents sum to 3
  raises the error.
\<close>

theorem multiply_pauli_non_hermitian_witness:
  "spec_total_exponent ''XZ'' ''XY'' = 3 \<and>
   multiply_pauli (1, ''XZ'') (1, ''XY'') = Inl NonHermitianPhase"
proof -
  have e: "spec_total_exponent ''XZ'' ''XY'' = 3"
    by (simp add: spec_total_exponent_def spec_single_product_def)
  show ?thesis
    using multiply_pauli_non_hermitian [of "''XZ''" "''XY''" 1 1] e
    by (simp add: pauli_alphabet_def)
qed

text \<open>
  Claim C5 as stated, that the product of any two valid operators of equal length
  succeeds, fails on \<open>X\<close> times \<open>Y\<close>: both are valid Hermitian operators on one qubit and
  the call raises the non-Hermitian phase error.
\<close>

theorem multiply_pauli_closure_counterexample:
  "multiply_pauli (1, ''X'') (1, ''Y'') = Inl NonHermitianPhase"
  by (simp add: multiply_pauli_def SINGLE_MULT_def)

lemma spec_product_string_length:
  "length P = length Q \<Longrightarrow> length (spec_product_string P Q) = length P"
  by (simp add: spec_product_string_def)

text \<open>
  Claim C5, amended. For valid operators (signs \<open>+1\<close> or \<open>-1\<close>, strings over the
  alphabet) of equal length \<open>n\<close>, either the strings do not anticommute and
  \<^verbatim>\<open>multiply_pauli\<close> returns an operator with sign \<open>+1\<close> or \<open>-1\<close> and a string of length
  \<open>n\<close>, or the strings anticommute and it raises the non-Hermitian phase error.
\<close>

theorem multiply_pauli_closure:
  assumes "sp \<in> {1, - 1}" "sq \<in> {1, - 1}"
    and "set P \<subseteq> pauli_alphabet" "set Q \<subseteq> pauli_alphabet"
    and "length P = n" "length Q = n"
  shows "(anticommutes P Q = Inr False \<and>
            (\<exists>s R. multiply_pauli (sp, P) (sq, Q) = Inr (s, R) \<and> s \<in> {1, - 1} \<and> length R = n)) \<or>
         (anticommutes P Q = Inr True \<and>
            multiply_pauli (sp, P) (sq, Q) = Inl NonHermitianPhase)"
proof -
  have len: "length P = length Q" using assms(5,6) by simp
  note m = multiply_pauli_spec [OF len assms(3,4), of sp sq]
  note a = anticommutes_spec [OF len assms(3,4)]
  show ?thesis
  proof (cases "spec_total_exponent P Q mod 2 \<noteq> 0")
    case True
    with m a show ?thesis by simp
  next
    case False
    have "sp * sq * (if spec_total_exponent P Q = 0 then 1 else - 1) \<in> {1, - 1}"
      using assms(1,2) by auto
    with False m a spec_product_string_length [OF len] assms(5) show ?thesis by simp
  qed
qed

text \<open>Witness of C5: two commuting strings of length three.\<close>

theorem multiply_pauli_closure_witness:
  "anticommutes ''XXI'' ''ZZY'' = Inr False \<and>
   (\<exists>s R. multiply_pauli (1, ''XXI'') (- 1, ''ZZY'') = Inr (s, R) \<and> s \<in> {1, - 1} \<and> length R = 3)"
proof -
  have "anticommutes ''XXI'' ''ZZY'' = Inr False"
    by (simp add: anticommutes_def anti_pairs_def)
  then show ?thesis
    using multiply_pauli_closure [of 1 "- 1" "''XXI''" "''ZZY''" 3]
    by (simp add: pauli_alphabet_def)
qed

text \<open>
  Claim C1 as stated fails: \<open>XII\<close> commutes with \<open>XXX\<close> (equal symbols at the only
  position where both are not \<open>I\<close>), so generator 0 is not the pivot of the first
  measurement, and the run does not return the list the claim describes, whose third
  entry is the product of \<open>IZZ\<close> and \<open>ZZI\<close>.
\<close>

theorem scenario_1_counterexample:
  "anticommutes ''XXX'' ''XII'' = Inr False \<and>
   multiply_pauli (1, ''IZZ'') (1, ''ZZI'') = Inr (1, ''ZIZ'') \<and>
   update_resource_with_fusions [(1, ''XXX''), (1, ''ZZI''), (1, ''IZZ'')] [''XII'', ''IZI'']
       (Some [''XII'' \<mapsto> 1, ''IZI'' \<mapsto> - 1])
     \<noteq> Inr [(1, ''XII''), (- 1, ''IZI''), (1, ''ZIZ'')]"
  by (simp add: update_resource_with_fusions_def qubit_count_def outcomes_or_empty_def
      process_measurement_def anti_idx_def anticommutes_def anti_pairs_def outcome_of_def
      multiply_pauli_def SINGLE_MULT_def)

text \<open>
  Claim C1, amended. In the run of scenario 1, \<open>XII\<close> anticommutes with \<open>ZZI\<close> only and
  replaces generator 1 as \<open>(+1, XII)\<close>; \<open>IZI\<close> then anticommutes with \<open>XXX\<close> only and
  replaces generator 0 as \<open>(-1, IZI)\<close>; generator 2 stays \<open>(+1, IZZ)\<close>.
\<close>

theorem scenario_1:
  "update_resource_with_fusions [(1, ''XXX''), (1, ''ZZI''), (1, ''IZZ'')] [''XII'', ''IZI'']
       (Some [''XII'' \<mapsto> 1, ''IZI'' \<mapsto> - 1])
     = Inr [(- 1, ''IZI''), (1, ''XII''), (1, ''IZZ'')]"
  by (simp add: update_resource_with_fusions_def qubit_count_def outcomes_or_empty_def
      process_measurement_def anti_idx_def anticommutes_def anti_pairs_def outcome_of_def)

section \<open>The scan for anticommuting generators and the inner loop\<close>

lemma anti_scan_filter:
  "anti_scan j gens M =
     (if \<forall>g \<in> set gens. length (snd g) = length M
      then Inr (map fst (filter (\<lambda>ig. anticommutes (snd (snd ig)) M = Inr True) (enumerate j gens)))
      else Inl MismatchedLength)"
proof (induction gens arbitrary: j)
  case Nil
  then show ?case by simp
next
  case (Cons g gens)
  obtain sg G where g: "g = (sg, G)" by (cases g)
  show ?case
  proof (cases "length G = length M")
    case True
    then obtain t where t: "anticommutes G M = Inr t" by (auto simp: anticommutes_def)
    show ?thesis
      using True by (cases t) (simp_all add: g t Cons.IH)
  next
    case False
    then have "anticommutes G M = Inl MismatchedLength" by (simp add: anticommutes_def)
    with False show ?thesis by (simp add: g)
  qed
qed

lemma enumerate_0_map: "enumerate 0 xs = map (\<lambda>i. (i, xs ! i)) [0..<length xs]"
  by (rule nth_equalityI) (simp_all add: nth_enumerate_eq)

lemma anti_idx_filter:
  "anti_idx gens M =
     (if \<forall>g \<in> set gens. length (snd g) = length M
      then Inr (filter (\<lambda>i. anticommutes (snd (gens ! i)) M = Inr True) [0..<length gens])
      else Inl MismatchedLength)"
  by (simp add: anti_idx_def anti_scan_filter enumerate_0_map filter_map comp_def)

lemma filter_upt_first:
  assumes "p < n" "A p" "\<forall>i<p. \<not> A i"
  shows "filter A [0..<n] = p # filter A [Suc p..<n]"
proof -
  have "[0..<n] = [0..<p] @ p # [Suc p..<n]"
    using assms(1) by (metis less_imp_le_nat upt_add_eq_append upt_conv_Cons le_add_diff_inverse zero_le add_0)
  moreover have "filter A [0..<p] = []"
    using assms(3) by (simp add: filter_empty_conv)
  ultimately show ?thesis using assms(2) by simp
qed

lemma anti_idx_Inr_facts:
  assumes "anti_idx gens M = Inr js"
  shows "sorted_wrt (<) js"
    and "set js = {i. i < length gens \<and> anticommutes (snd (gens ! i)) M = Inr True}"
    and "\<forall>g \<in> set gens. length (snd g) = length M"
proof -
  from assms show ok: "\<forall>g \<in> set gens. length (snd g) = length M"
    by (simp add: anti_idx_filter split: if_splits)
  with assms have js: "js = filter (\<lambda>i. anticommutes (snd (gens ! i)) M = Inr True) [0..<length gens]"
    by (simp add: anti_idx_filter)
  show "sorted_wrt (<) js" unfolding js by (rule sorted_wrt_filter) simp
  show "set js = {i. i < length gens \<and> anticommutes (snd (gens ! i)) M = Inr True}"
    unfolding js by auto
qed

lemma combine_loop_length: "length (fst (combine_loop js old gens)) = length gens"
  by (induction js arbitrary: gens) (auto split: sum.splits)

lemma combine_loop_frame: "i \<notin> set js \<Longrightarrow> fst (combine_loop js old gens) ! i = gens ! i"
  by (induction js arbitrary: gens) (auto split: sum.splits)

lemma combine_loop_ok:
  assumes "distinct js" "\<forall>j \<in> set js. j < length gens"
    and "\<forall>j \<in> set js. \<exists>r. multiply_pauli (gens ! j) old = Inr r"
  shows "\<exists>new. combine_loop js old gens = (new, None) \<and>
           (\<forall>j \<in> set js. multiply_pauli (gens ! j) old = Inr (new ! j))"
  using assms
proof (induction js arbitrary: gens)
  case Nil
  then show ?case by simp
next
  case (Cons j js)
  from Cons.prems(3) obtain r where r: "multiply_pauli (gens ! j) old = Inr r" by auto
  let ?g = "gens[j := r]"
  from Cons.prems(1) have notin: "j \<notin> set js" and dist: "distinct js" by simp_all
  have same: "\<forall>k \<in> set js. ?g ! k = gens ! k"
    using notin by (metis nth_list_update_neq)
  have "\<forall>k \<in> set js. k < length ?g" using Cons.prems(2) by simp
  moreover have "\<forall>k \<in> set js. \<exists>r. multiply_pauli (?g ! k) old = Inr r"
    using Cons.prems(3) same by simp
  ultimately obtain new where new: "combine_loop js old ?g = (new, None)"
      "\<forall>k \<in> set js. multiply_pauli (?g ! k) old = Inr (new ! k)"
    using Cons.IH [OF dist] by blast
  have "new ! j = ?g ! j"
    using combine_loop_frame [OF notin, of old ?g] new(1) by simp
  then have "new ! j = r" using Cons.prems(2) by simp
  with new same r show ?case by simp
qed

lemma combine_loop_fails:
  assumes "distinct js" "\<exists>j \<in> set js. \<exists>e. multiply_pauli (gens ! j) old = Inl e"
  shows "\<exists>new e. combine_loop js old gens = (new, Some e)"
  using assms
proof (induction js arbitrary: gens)
  case Nil
  then show ?case by simp
next
  case (Cons j js)
  show ?case
  proof (cases "multiply_pauli (gens ! j) old")
    case (Inl e)
    then show ?thesis by simp
  next
    case (Inr r)
    from Cons.prems(1) have notin: "j \<notin> set js" and dist: "distinct js" by simp_all
    from Cons.prems(2) Inr obtain k e where k: "k \<in> set js" "multiply_pauli (gens ! k) old = Inl e"
      by auto
    with notin have "multiply_pauli (gens[j := r] ! k) old = Inl e"
      by (metis nth_list_update_neq)
    with k(1) have "\<exists>k \<in> set js. \<exists>e. multiply_pauli (gens[j := r] ! k) old = Inl e" by blast
    from Cons.IH [OF dist this] Inr show ?thesis by simp
  qed
qed

section \<open>One measurement\<close>

lemma anticommutes_False_length: "anticommutes P Q = Inr False \<Longrightarrow> length P = length Q"
  by (simp add: anticommutes_def split: if_splits)

lemma process_case_a:
  assumes "length M = n" "\<forall>g \<in> set gens. anticommutes (snd g) M = Inr False"
  shows "process_measurement n outcomes M gens = (gens @ [(outcome_of outcomes M, M)], None)"
proof -
  have ok: "\<forall>g \<in> set gens. length (snd g) = length M"
    using assms(2) by (auto dest: anticommutes_False_length)
  have "filter (\<lambda>i. anticommutes (snd (gens ! i)) M = Inr True) [0..<length gens] = []"
    using assms(2) by (simp add: filter_empty_conv)
  with ok have "anti_idx gens M = Inr []" by (simp add: anti_idx_filter)
  with assms(1) show ?thesis by (simp add: process_measurement_def)
qed

lemma process_case_b_split:
  assumes "length M = n" "\<forall>g \<in> set gens. length (snd g) = length M"
    and "p < length gens" "anticommutes (snd (gens ! p)) M = Inr True"
    and "\<forall>i<p. anticommutes (snd (gens ! i)) M \<noteq> Inr True"
  shows "process_measurement n outcomes M gens =
           combine_loop
             (filter (\<lambda>i. anticommutes (snd (gens ! i)) M = Inr True) [Suc p..<length gens])
             (gens ! p) (gens[p := (outcome_of outcomes M, M)])"
proof -
  have "anti_idx gens M =
          Inr (p # filter (\<lambda>i. anticommutes (snd (gens ! i)) M = Inr True) [Suc p..<length gens])"
    using assms(2) filter_upt_first [of p "length gens" "\<lambda>i. anticommutes (snd (gens ! i)) M = Inr True"]
      assms(3,4,5)
    by (simp add: anti_idx_filter)
  with assms(1) show ?thesis by (simp add: process_measurement_def)
qed

lemma process_case_b:
  assumes len: "length M = n" and ok: "\<forall>g \<in> set gens. length (snd g) = length M"
    and p: "p < length gens" "anticommutes (snd (gens ! p)) M = Inr True"
      "\<forall>i<p. anticommutes (snd (gens ! i)) M \<noteq> Inr True"
    and prods: "\<forall>j<length gens. j \<noteq> p \<and> anticommutes (snd (gens ! j)) M = Inr True \<longrightarrow>
                  (\<exists>r. multiply_pauli (gens ! j) (gens ! p) = Inr r)"
  shows "\<exists>new. process_measurement n outcomes M gens = (new, None) \<and>
           length new = length gens \<and>
           new ! p = (outcome_of outcomes M, M) \<and>
           (\<forall>j<length gens. j \<noteq> p \<longrightarrow>
              (if anticommutes (snd (gens ! j)) M = Inr True
               then multiply_pauli (gens ! j) (gens ! p) = Inr (new ! j)
               else new ! j = gens ! j))"
proof -
  let ?A = "\<lambda>i. anticommutes (snd (gens ! i)) M = Inr True"
  let ?others = "filter ?A [Suc p..<length gens]"
  let ?g = "gens[p := (outcome_of outcomes M, M)]"
  have eq: "process_measurement n outcomes M gens = combine_loop ?others (gens ! p) ?g"
    by (rule process_case_b_split [OF len ok p])
  have others: "set ?others = {j. p < j \<and> j < length gens \<and> ?A j}" by auto
  have dist: "distinct ?others" by simp
  have inr: "\<forall>j \<in> set ?others. j < length ?g" by simp
  have same: "\<forall>j \<in> set ?others. ?g ! j = gens ! j" by simp
  have "\<forall>j \<in> set ?others. \<exists>r. multiply_pauli (?g ! j) (gens ! p) = Inr r"
    using prods by simp
  from combine_loop_ok [OF dist inr this]
  obtain new where new: "combine_loop ?others (gens ! p) ?g = (new, None)"
      "\<forall>j \<in> set ?others. multiply_pauli (?g ! j) (gens ! p) = Inr (new ! j)"
    by blast
  have frame: "\<And>i. i \<notin> set ?others \<Longrightarrow> new ! i = ?g ! i"
    using combine_loop_frame [of _ ?others "gens ! p" ?g] new(1) by simp
  have l: "length new = length gens"
    using combine_loop_length [of ?others "gens ! p" ?g] new(1) by simp
  have pv: "new ! p = (outcome_of outcomes M, M)"
    using frame [of p] p(1) by simp
  have rest: "\<forall>j<length gens. j \<noteq> p \<longrightarrow>
              (if ?A j then multiply_pauli (gens ! j) (gens ! p) = Inr (new ! j)
               else new ! j = gens ! j)"
  proof (intro allI impI)
    fix j assume j: "j < length gens" "j \<noteq> p"
    show "if ?A j then multiply_pauli (gens ! j) (gens ! p) = Inr (new ! j) else new ! j = gens ! j"
    proof (cases "?A j")
      case True
      with p(3) j have "p < j" by (metis linorder_neqE_nat)
      with True j have "j \<in> set ?others" by simp
      with new(2) same True show ?thesis by simp
    next
      case False
      then have "j \<notin> set ?others" by simp
      from frame [OF this] j False show ?thesis by simp
    qed
  qed
  from eq new(1) l pv rest show ?thesis by simp
qed

lemma process_case_b_fails:
  assumes len: "length M = n" and ok: "\<forall>g \<in> set gens. length (snd g) = length M"
    and p: "p < length gens" "anticommutes (snd (gens ! p)) M = Inr True"
      "\<forall>i<p. anticommutes (snd (gens ! i)) M \<noteq> Inr True"
    and bad: "j < length gens" "j \<noteq> p" "anticommutes (snd (gens ! j)) M = Inr True"
      "multiply_pauli (gens ! j) (gens ! p) = Inl e"
  shows "\<exists>new e'. process_measurement n outcomes M gens = (new, Some e')"
proof -
  let ?A = "\<lambda>i. anticommutes (snd (gens ! i)) M = Inr True"
  let ?others = "filter ?A [Suc p..<length gens]"
  let ?g = "gens[p := (outcome_of outcomes M, M)]"
  have eq: "process_measurement n outcomes M gens = combine_loop ?others (gens ! p) ?g"
    by (rule process_case_b_split [OF len ok p])
  from p(3) bad have "p < j" by (metis linorder_neqE_nat)
  with bad have "j \<in> set ?others" "multiply_pauli (?g ! j) (gens ! p) = Inl e" by simp_all
  then have "\<exists>j \<in> set ?others. \<exists>e. multiply_pauli (?g ! j) (gens ! p) = Inl e" by blast
  from combine_loop_fails [OF _ this] eq show ?thesis by simp
qed

lemma process_measurement_length:
  "length gens \<le> length (fst (process_measurement n outcomes M gens))"
  by (simp add: process_measurement_def Let_def combine_loop_length split: sum.splits list.splits)

lemma process_measurement_length_ok:
  assumes "process_measurement n outcomes M gens = (new, None)"
  shows "length new = length gens + (if anti_idx gens M = Inr [] then 1 else 0)"
proof (cases "anti_idx gens M")
  case (Inl e)
  with assms show ?thesis by (simp add: process_measurement_def split: if_splits)
next
  case (Inr js)
  show ?thesis
  proof (cases js)
    case Nil
    with Inr assms show ?thesis by (auto simp: process_measurement_def split: if_splits)
  next
    case (Cons p others)
    with Inr assms have "new = fst (combine_loop others (gens ! p) (gens[p := (outcome_of outcomes M, M)]))"
      by (auto simp: process_measurement_def split: if_splits)
    with Inr Cons show ?thesis by (simp add: combine_loop_length)
  qed
qed

lemma process_measurement_head:
  assumes "process_measurement n outcomes M gens = (new, None)"
    and "gens \<noteq> [] \<longrightarrow> length (snd (gens ! 0)) = n"
  shows "new \<noteq> [] \<and> length (snd (new ! 0)) = n"
proof -
  from assms(1) have len: "length M = n"
    by (simp add: process_measurement_def split: if_splits)
  show ?thesis
  proof (cases "anti_idx gens M")
    case (Inl e)
    with assms(1) len show ?thesis by (simp add: process_measurement_def)
  next
    case (Inr js)
    show ?thesis
    proof (cases js)
      case Nil
      with Inr assms len show ?thesis
        by (cases gens) (auto simp: process_measurement_def)
    next
      case (Cons p others)
      let ?g = "gens[p := (outcome_of outcomes M, M)]"
      from Inr Cons assms(1) len have new: "new = fst (combine_loop others (gens ! p) ?g)"
        by (auto simp: process_measurement_def)
      from anti_idx_Inr_facts(1,2) [OF Inr] Cons
      have "p < length gens" and "0 \<notin> set others" by auto
      then have "gens \<noteq> []" and "new ! 0 = ?g ! 0" and "length new = length gens"
        using new by (auto simp: combine_loop_frame combine_loop_length)
      with assms(2) len \<open>p < length gens\<close> show ?thesis
        by (cases "p = 0") auto
    qed
  qed
qed

section \<open>The loop over the measurements\<close>

lemma fusion_loop_append:
  "fusion_loop n d (Ms @ Ms') gens =
     (case fusion_loop n d Ms gens of
        (cur, None) \<Rightarrow> fusion_loop n d Ms' cur
      | (cur, Some e) \<Rightarrow> (cur, Some e))"
  by (induction Ms arbitrary: gens) (auto split: prod.splits option.splits)

lemma fusion_loop_length: "length gens \<le> length (fst (fusion_loop n d Ms gens))"
proof (induction Ms arbitrary: gens)
  case Nil
  then show ?case by simp
next
  case (Cons M Ms)
  obtain cur r where step: "process_measurement n d M gens = (cur, r)"
    by (cases "process_measurement n d M gens")
  have le: "length gens \<le> length cur"
    using process_measurement_length [of gens n d M] step by simp
  show ?case
  proof (cases r)
    case None
    with step le Cons.IH [of cur] show ?thesis by simp
  next
    case (Some e)
    with step le show ?thesis by simp
  qed
qed

lemma fusion_loop_head:
  assumes "fusion_loop n d Ms gens = (cur, None)"
    and "gens \<noteq> [] \<longrightarrow> length (snd (gens ! 0)) = n"
  shows "(cur \<noteq> [] \<longrightarrow> length (snd (cur ! 0)) = n) \<and> (Ms \<noteq> [] \<longrightarrow> cur \<noteq> [])"
  using assms
proof (induction Ms arbitrary: gens)
  case Nil
  then show ?case by simp
next
  case (Cons M Ms)
  from Cons.prems(1) obtain mid where mid: "process_measurement n d M gens = (mid, None)"
      "fusion_loop n d Ms mid = (cur, None)"
    by (auto split: prod.splits option.splits)
  from process_measurement_head [OF mid(1) Cons.prems(2)]
  have h: "mid \<noteq> []" "length (snd (mid ! 0)) = n" by simp_all
  from Cons.IH [OF mid(2)] h have "cur \<noteq> [] \<longrightarrow> length (snd (cur ! 0)) = n" by simp
  moreover have "cur \<noteq> []"
    using fusion_loop_length [of mid n d Ms] mid(2) h(1) by auto
  ultimately show ?case by simp
qed

lemma qubit_count_head: "gens \<noteq> [] \<longrightarrow> length (snd (gens ! 0)) = qubit_count gens Ms"
  by (cases gens) (simp_all add: qubit_count_def)

lemma qubit_count_snoc:
  "gens \<noteq> [] \<or> Ms \<noteq> [] \<Longrightarrow> qubit_count gens (Ms @ [M]) = qubit_count gens Ms"
  by (cases gens; cases Ms) (simp_all add: qubit_count_def)

lemma fusion_loop_qubit_count_snoc:
  "fusion_loop (qubit_count gens (Ms @ [M])) d Ms gens = fusion_loop (qubit_count gens Ms) d Ms gens"
proof (cases "Ms = []")
  case True
  then show ?thesis by simp
next
  case False
  then show ?thesis by (simp add: qubit_count_snoc)
qed

lemma update_snoc:
  "update_resource_with_fusions gens (Ms @ [M]) outs =
     (case update_resource_with_fusions gens Ms outs of
        Inl e \<Rightarrow> Inl e
      | Inr cur \<Rightarrow>
          (case process_measurement (qubit_count gens (Ms @ [M])) (outcomes_or_empty outs) M cur of
             (new, None) \<Rightarrow> Inr new
           | (new, Some e) \<Rightarrow> Inl e))"
  by (simp add: update_resource_with_fusions_def fusion_loop_append fusion_loop_qubit_count_snoc
      split: prod.splits option.splits)

lemma update_current_length:
  assumes "update_resource_with_fusions gens Ms outs = Inr cur" "g \<in> set cur"
    and "length (snd (cur ! 0)) = length M"
  shows "length M = qubit_count gens (Ms @ [M])"
proof -
  let ?n = "qubit_count gens Ms"
  from assms(1) have loop: "fusion_loop ?n (outcomes_or_empty outs) Ms gens = (cur, None)"
    by (simp add: update_resource_with_fusions_def split: prod.splits option.splits)
  from assms(2) have ne: "cur \<noteq> []" by auto
  from fusion_loop_head [OF loop qubit_count_head] ne have "length (snd (cur ! 0)) = ?n" by simp
  moreover have "gens \<noteq> [] \<or> Ms \<noteq> []"
    using loop ne by (cases Ms) auto
  ultimately show ?thesis using assms(3) by (simp add: qubit_count_snoc)
qed

lemma update_empty_current:
  assumes "update_resource_with_fusions gens Ms outs = Inr []"
  shows "qubit_count gens (Ms @ [M]) = length M"
proof -
  let ?n = "qubit_count gens Ms"
  from assms have loop: "fusion_loop ?n (outcomes_or_empty outs) Ms gens = ([], None)"
    by (simp add: update_resource_with_fusions_def split: prod.splits option.splits)
  from fusion_loop_head [OF loop qubit_count_head] have "Ms = []" by simp
  moreover have "gens = []"
    using fusion_loop_length [of gens ?n "outcomes_or_empty outs" Ms] loop by simp
  ultimately show ?thesis by (simp add: qubit_count_def)
qed

text \<open>
  Claim C7. Let \<open>cur\<close> be the list after the measurements \<open>Ms\<close>. If the next
  measurement \<open>M\<close> anticommutes with no generator of \<open>cur\<close>, the run extended by \<open>M\<close>
  returns \<open>cur\<close> with the one entry \<open>(outcome, M)\<close> appended at the end: every entry of
  \<open>cur\<close> keeps its index and its value. The outcome is read off the argument the caller
  passed: the value of the caller's map at \<open>M\<close> when \<open>M\<close> is a key of it, and \<open>+1\<close> when
  \<open>M\<close> is not a key or no map was passed. That \<open>M\<close> has the length \<open>n\<close> follows from the
  hypotheses.
\<close>

theorem update_case_a:
  assumes "update_resource_with_fusions gens Ms outcomes = Inr cur"
    and "\<forall>g \<in> set cur. anticommutes (snd g) M = Inr False"
  shows "update_resource_with_fusions gens (Ms @ [M]) outcomes =
           Inr (cur @ [(case outcomes of
                          None \<Rightarrow> 1
                        | Some d \<Rightarrow> (case d M of None \<Rightarrow> 1 | Some v \<Rightarrow> v), M)]) \<and>
         (\<forall>new. update_resource_with_fusions gens (Ms @ [M]) outcomes = Inr new \<longrightarrow>
            length new = Suc (length cur) \<and> (\<forall>i<length cur. new ! i = cur ! i))"
proof -
  have len: "length M = qubit_count gens (Ms @ [M])"
  proof (cases cur)
    case Nil
    with assms(1) show ?thesis by (simp add: update_empty_current)
  next
    case (Cons g rest)
    with assms(2) have "length (snd (cur ! 0)) = length M"
      by (auto dest: anticommutes_False_length)
    moreover from Cons have "g \<in> set cur" by simp
    ultimately show ?thesis by (rule update_current_length [OF assms(1), rotated])
  qed
  have run: "update_resource_with_fusions gens (Ms @ [M]) outcomes =
               Inr (cur @ [(outcome_of (outcomes_or_empty outcomes) M, M)])"
    using process_case_a [OF len assms(2)] assms(1) by (simp add: update_snoc)
  have out: "outcome_of (outcomes_or_empty outcomes) M =
               (case outcomes of
                  None \<Rightarrow> 1
                | Some d \<Rightarrow> (case d M of None \<Rightarrow> 1 | Some v \<Rightarrow> v))"
    by (cases outcomes) (simp_all add: outcome_of_def outcomes_or_empty_def)
  from run out show ?thesis by (simp add: nth_append)
qed

text \<open>
  Witness of C7: one generator and a map with the single key \<open>YY\<close>. The measurement
  \<open>ZZ\<close> is not a key and is appended with \<open>+1\<close>; \<open>YY\<close> then commutes with both entries
  and is appended with the mapped outcome \<open>-1\<close>.
\<close>

theorem update_case_a_witness:
  "update_resource_with_fusions [(1, ''XX'')] [''ZZ''] (Some [''YY'' \<mapsto> - 1])
     = Inr [(1, ''XX''), (1, ''ZZ'')] \<and>
   update_resource_with_fusions [(1, ''XX'')] [''ZZ'', ''YY''] (Some [''YY'' \<mapsto> - 1])
     = Inr [(1, ''XX''), (1, ''ZZ''), (- 1, ''YY'')]"
proof -
  let ?outcomes = "Some [''YY'' \<mapsto> - 1 :: int]"
  have start: "update_resource_with_fusions [(1, ''XX'')] [] ?outcomes = Inr [(1, ''XX'')]"
    by (simp add: update_resource_with_fusions_def)
  have zz: "\<forall>g \<in> set [(1::int, ''XX'')]. anticommutes (snd g) ''ZZ'' = Inr False"
    by (simp add: anticommutes_def anti_pairs_def)
  from update_case_a [OF start zz]
  have cur: "update_resource_with_fusions [(1, ''XX'')] [''ZZ''] ?outcomes
               = Inr [(1, ''XX''), (1, ''ZZ'')]"
    by simp
  have yy: "\<forall>g \<in> set [(1::int, ''XX''), (1, ''ZZ'')]. anticommutes (snd g) ''YY'' = Inr False"
    by (simp add: anticommutes_def anti_pairs_def)
  from update_case_a [OF cur yy]
  have "update_resource_with_fusions [(1, ''XX'')] [''ZZ'', ''YY''] ?outcomes
          = Inr [(1, ''XX''), (1, ''ZZ''), (- 1, ''YY'')]"
    by simp
  with cur show ?thesis by simp
qed

text \<open>
  Claim C2. Let \<open>cur\<close> be the list after the measurements \<open>Ms\<close>, let the scan of \<open>cur\<close>
  against the next measurement \<open>M\<close> raise nothing (all strings have the length of \<open>M\<close>),
  and let \<open>p\<close> be the first index whose generator anticommutes with \<open>M\<close>. If every
  product of another anticommuting generator with the generator at \<open>p\<close> is defined, the
  run extended by \<open>M\<close> returns a list of the same length in which entry \<open>p\<close> is
  \<open>(outcome, M)\<close>, every other anticommuting entry \<open>j\<close> is the product of \<open>cur ! j\<close> and
  the old \<open>cur ! p\<close>, and every commuting entry is as in \<open>cur\<close>. If one of these
  products raises, the run raises.
\<close>

theorem update_case_b:
  assumes cur: "update_resource_with_fusions gens Ms outs = Inr cur"
    and ok: "\<forall>g \<in> set cur. length (snd g) = length M"
    and p: "p < length cur" "anticommutes (snd (cur ! p)) M = Inr True"
      "\<forall>i<p. anticommutes (snd (cur ! i)) M = Inr False"
  shows "if \<forall>j<length cur. j \<noteq> p \<and> anticommutes (snd (cur ! j)) M = Inr True \<longrightarrow>
              (\<exists>r. multiply_pauli (cur ! j) (cur ! p) = Inr r)
         then \<exists>new. update_resource_with_fusions gens (Ms @ [M]) outs = Inr new \<and>
                length new = length cur \<and>
                new ! p = (case outcomes_or_empty outs M of None \<Rightarrow> 1 | Some v \<Rightarrow> v, M) \<and>
                (\<forall>j<length cur. j \<noteq> p \<longrightarrow>
                   (if anticommutes (snd (cur ! j)) M = Inr True
                    then multiply_pauli (cur ! j) (cur ! p) = Inr (new ! j)
                    else new ! j = cur ! j))
         else \<exists>e. update_resource_with_fusions gens (Ms @ [M]) outs = Inl e"
proof -
  let ?n = "qubit_count gens (Ms @ [M])"
  let ?d = "outcomes_or_empty outs"
  from p(1) have mem: "cur ! 0 \<in> set cur" by (cases cur) auto
  with ok have "length (snd (cur ! 0)) = length M" by blast
  from update_current_length [OF cur mem this] have len: "length M = ?n" .
  from p(3) have first: "\<forall>i<p. anticommutes (snd (cur ! i)) M \<noteq> Inr True" by simp
  show ?thesis
  proof (cases "\<forall>j<length cur. j \<noteq> p \<and> anticommutes (snd (cur ! j)) M = Inr True \<longrightarrow>
              (\<exists>r. multiply_pauli (cur ! j) (cur ! p) = Inr r)")
    case True
    from process_case_b [OF len ok p(1,2) first True, of ?d]
    obtain new where new: "process_measurement ?n ?d M cur = (new, None)"
        "length new = length cur" "new ! p = (outcome_of ?d M, M)"
        "\<forall>j<length cur. j \<noteq> p \<longrightarrow>
           (if anticommutes (snd (cur ! j)) M = Inr True
            then multiply_pauli (cur ! j) (cur ! p) = Inr (new ! j)
            else new ! j = cur ! j)"
      by blast
    have "update_resource_with_fusions gens (Ms @ [M]) outs = Inr new"
      using cur new(1) by (simp add: update_snoc)
    with new(2,3,4) have "\<exists>new. update_resource_with_fusions gens (Ms @ [M]) outs = Inr new \<and>
                length new = length cur \<and>
                new ! p = (case outcomes_or_empty outs M of None \<Rightarrow> 1 | Some v \<Rightarrow> v, M) \<and>
                (\<forall>j<length cur. j \<noteq> p \<longrightarrow>
                   (if anticommutes (snd (cur ! j)) M = Inr True
                    then multiply_pauli (cur ! j) (cur ! p) = Inr (new ! j)
                    else new ! j = cur ! j))"
      unfolding outcome_of_def by (intro exI [of _ new] conjI)
    then show ?thesis unfolding if_P [OF True] .
  next
    case False
    then obtain j where j: "j < length cur" "j \<noteq> p" "anticommutes (snd (cur ! j)) M = Inr True"
        "\<nexists>r. multiply_pauli (cur ! j) (cur ! p) = Inr r"
      by blast
    then obtain e where "multiply_pauli (cur ! j) (cur ! p) = Inl e"
      by (cases "multiply_pauli (cur ! j) (cur ! p)") auto
    from process_case_b_fails [OF len ok p(1,2) first j(1,2,3) this, of ?d]
    obtain new e' where "process_measurement ?n ?d M cur = (new, Some e')" by blast
    then have "update_resource_with_fusions gens (Ms @ [M]) outs = Inl e'"
      using cur by (simp add: update_snoc)
    then have "\<exists>e. update_resource_with_fusions gens (Ms @ [M]) outs = Inl e" ..
    then show ?thesis unfolding if_not_P [OF False] .
  qed
qed

lemma scenario_b_current:
  "update_resource_with_fusions [(1, ''XXX''), (1, ''ZZI'')] [''IZZ''] (Some [''IXI'' \<mapsto> - 1])
     = Inr [(1, ''XXX''), (1, ''ZZI''), (1, ''IZZ'')]"
  by (simp add: update_resource_with_fusions_def qubit_count_def outcomes_or_empty_def
      process_measurement_def anti_idx_def anticommutes_def anti_pairs_def outcome_of_def)

text \<open>
  Witness of C2: after one appended measurement, \<open>IXI\<close> anticommutes with the generators
  1 and 2; generator 1 is the pivot and generator 2 becomes the product with the old
  pivot.
\<close>

theorem update_case_b_witness:
  "\<exists>new. update_resource_with_fusions [(1, ''XXX''), (1, ''ZZI'')] [''IZZ'', ''IXI'']
             (Some [''IXI'' \<mapsto> - 1]) = Inr new \<and>
     length new = 3 \<and> new ! 0 = (1, ''XXX'') \<and> new ! 1 = (- 1, ''IXI'') \<and>
     multiply_pauli (1, ''IZZ'') (1, ''ZZI'') = Inr (new ! 2) \<and> new ! 2 = (1, ''ZIZ'')"
proof -
  let ?cur = "[(1::int, ''XXX''), (1, ''ZZI''), (1, ''IZZ'')]"
  let ?M = "''IXI''"
  have ok: "\<forall>g \<in> set ?cur. length (snd g) = length ?M" by simp
  have p: "(1::nat) < length ?cur" "anticommutes (snd (?cur ! 1)) ?M = Inr True"
    "\<forall>i<(1::nat). anticommutes (snd (?cur ! i)) ?M = Inr False"
    by (simp_all add: anticommutes_def anti_pairs_def)
  have a2: "anticommutes (snd (?cur ! 2)) ?M = Inr True"
    and a0: "anticommutes (snd (?cur ! 0)) ?M = Inr False"
    by (simp_all add: anticommutes_def anti_pairs_def)
  have prod: "multiply_pauli (?cur ! 2) (?cur ! 1) = Inr (1, ''ZIZ'')"
    by (simp add: multiply_pauli_def SINGLE_MULT_def)
  have all: "\<forall>j<length ?cur. j \<noteq> 1 \<and> anticommutes (snd (?cur ! j)) ?M = Inr True \<longrightarrow>
              (\<exists>r. multiply_pauli (?cur ! j) (?cur ! 1) = Inr r)"
  proof (intro allI impI)
    fix j assume "j < length ?cur" "j \<noteq> 1 \<and> anticommutes (snd (?cur ! j)) ?M = Inr True"
    then have "j = 0 \<or> j = 2" by auto
    with a0 \<open>j \<noteq> 1 \<and> anticommutes (snd (?cur ! j)) ?M = Inr True\<close> have "j = 2" by auto
    with prod show "\<exists>r. multiply_pauli (?cur ! j) (?cur ! 1) = Inr r" by blast
  qed
  from update_case_b [OF scenario_b_current ok p, unfolded if_P [OF all]]
  obtain new where new:
      "update_resource_with_fusions [(1, ''XXX''), (1, ''ZZI'')] ([''IZZ''] @ [?M])
         (Some [''IXI'' \<mapsto> - 1]) = Inr new"
      "length new = length ?cur"
      "new ! 1 = (case outcomes_or_empty (Some [''IXI'' \<mapsto> - 1]) ?M of None \<Rightarrow> 1 | Some v \<Rightarrow> v, ?M)"
      "\<forall>j<length ?cur. j \<noteq> 1 \<longrightarrow>
         (if anticommutes (snd (?cur ! j)) ?M = Inr True
          then multiply_pauli (?cur ! j) (?cur ! 1) = Inr (new ! j)
          else new ! j = ?cur ! j)"
    by blast
  from new(4) [rule_format, of 2] a2 have "multiply_pauli (?cur ! 2) (?cur ! 1) = Inr (new ! 2)"
    by simp
  moreover from new(4) [rule_format, of 0] a0 have "new ! 0 = ?cur ! 0" by simp
  ultimately show ?thesis
    using new(1,2,3) prod by (simp add: outcomes_or_empty_def)
qed

section \<open>The length of the list\<close>

lemma working_after_snoc:
  "k \<le> length Ms \<Longrightarrow> working_after n d (Ms @ [M]) gens k = working_after n d Ms gens k"
  by (simp add: working_after_def)

lemma working_after_all: "working_after n d Ms gens (length Ms) = fst (fusion_loop n d Ms gens)"
  by (simp add: working_after_def)

lemma case_a_count_snoc:
  "case_a_count n d (Ms @ [M]) gens =
     case_a_count n d Ms gens +
       (if anti_idx (fst (fusion_loop n d Ms gens)) M = Inr [] then 1 else 0)"
proof -
  let ?f = "\<lambda>Ms k. anti_idx (working_after n d Ms gens k) (Ms ! k) = Inr []"
  have "filter (?f (Ms @ [M])) [0..<length Ms] = filter (?f Ms) [0..<length Ms]"
    by (rule filter_cong) (simp_all add: working_after_snoc nth_append)
  moreover have "?f (Ms @ [M]) (length Ms) \<longleftrightarrow> anti_idx (fst (fusion_loop n d Ms gens)) M = Inr []"
    by (simp add: working_after_snoc working_after_all)
  ultimately show ?thesis
    by (simp add: case_a_count_def)
qed

lemma fusion_loop_count:
  "fusion_loop n d Ms gens = (final, None) \<Longrightarrow>
   length final = length gens + case_a_count n d Ms gens"
proof (induction Ms arbitrary: final rule: rev_induct)
  case Nil
  then show ?case by (simp add: case_a_count_def)
next
  case (snoc M Ms)
  from snoc.prems obtain cur where cur: "fusion_loop n d Ms gens = (cur, None)"
      "process_measurement n d M cur = (final, None)"
    by (auto simp: fusion_loop_append split: prod.splits option.splits)
  from snoc.IH [OF cur(1)] process_measurement_length_ok [OF cur(2)] cur(1)
  show ?case by (simp add: case_a_count_snoc)
qed

lemma working_after_mono:
  assumes "i \<le> k"
  shows "length (working_after n d Ms gens i) \<le> length (working_after n d Ms gens k)"
proof -
  have "take i (take k Ms) = take i Ms" using assms by (simp add: min_def)
  then have "take k Ms = take i Ms @ drop i (take k Ms)"
    using append_take_drop_id [of i "take k Ms"] by simp
  then have "fusion_loop n d (take k Ms) gens =
               (case fusion_loop n d (take i Ms) gens of
                  (cur, None) \<Rightarrow> fusion_loop n d (drop i (take k Ms)) cur
                | (cur, Some e) \<Rightarrow> (cur, Some e))"
    by (metis fusion_loop_append)
  then show ?thesis
    using fusion_loop_length [of "fst (fusion_loop n d (take i Ms) gens)" n d "drop i (take k Ms)"]
    by (simp add: working_after_def split: prod.splits option.splits)
qed

text \<open>
  Claim C6. For a call that returns, the length of the returned list is the length of
  the initial list plus the number of measurements whose scan found no anticommuting
  generator; the length of the working list never decreases from one measurement to a
  later one, and no single measurement, from any list, shortens the list.
\<close>

theorem update_list_length:
  assumes "update_resource_with_fusions gens Ms outs = Inr final"
    and "n = qubit_count gens Ms" and "d = outcomes_or_empty outs"
  shows "working_after n d Ms gens 0 = gens \<and>
         working_after n d Ms gens (length Ms) = final \<and>
         length final = length gens + case_a_count n d Ms gens \<and>
         (\<forall>i k. i \<le> k \<longrightarrow>
            length (working_after n d Ms gens i) \<le> length (working_after n d Ms gens k)) \<and>
         (\<forall>M cur. length cur \<le> length (fst (process_measurement n d M cur)))"
proof -
  from assms have loop: "fusion_loop n d Ms gens = (final, None)"
    by (simp add: update_resource_with_fusions_def split: prod.splits option.splits)
  have "working_after n d Ms gens 0 = gens" by (simp add: working_after_def)
  moreover have "working_after n d Ms gens (length Ms) = final"
    using loop by (simp add: working_after_all)
  moreover have "length final = length gens + case_a_count n d Ms gens"
    by (rule fusion_loop_count [OF loop])
  ultimately show ?thesis
    using working_after_mono process_measurement_length by blast
qed

text \<open>
  Witness of C6: one generator and three measurements, two of them appended and the
  third rewriting entries in place.
\<close>

theorem update_list_length_witness:
  "update_resource_with_fusions [(1, ''XXX'')] [''ZZI'', ''IZZ'', ''IXI''] None
     = Inr [(1, ''XXX''), (1, ''IXI''), (1, ''ZIZ'')] \<and>
   case_a_count 3 Map.empty [''ZZI'', ''IZZ'', ''IXI''] [(1, ''XXX'')] = 2 \<and>
   length (working_after 3 Map.empty [''ZZI'', ''IZZ'', ''IXI''] [(1, ''XXX'')] 1)
     \<le> length (working_after 3 Map.empty [''ZZI'', ''IZZ'', ''IXI''] [(1, ''XXX'')] 2)"
proof -
  have run: "update_resource_with_fusions [(1, ''XXX'')] [''ZZI'', ''IZZ'', ''IXI''] None
     = Inr [(1, ''XXX''), (1, ''IXI''), (1, ''ZIZ'')]"
    by (simp add: update_resource_with_fusions_def qubit_count_def outcomes_or_empty_def
        process_measurement_def anti_idx_def anticommutes_def anti_pairs_def outcome_of_def
        multiply_pauli_def SINGLE_MULT_def)
  have n: "3 = qubit_count [(1, ''XXX'')] [''ZZI'', ''IZZ'', ''IXI'']"
    by (simp add: qubit_count_def)
  have d: "Map.empty = outcomes_or_empty None" by (simp add: outcomes_or_empty_def)
  from update_list_length [OF run n d] run show ?thesis by simp
qed

section \<open>The caller's list\<close>

lemma update_call_result:
  assumes "a < length s"
  shows "snd (update_call s a Ms outs) =
           (case update_resource_with_fusions (s ! a) Ms outs of
              Inl e \<Rightarrow> Inl e | Inr final \<Rightarrow> Inr (length s))"
    and "update_resource_with_fusions (s ! a) Ms outs = Inr final \<Longrightarrow>
           fst (update_call s a Ms outs) ! length s = final"
  by (simp_all add: update_call_def update_resource_with_fusions_def Let_def
      split: prod.splits option.splits)

lemma update_call_frame:
  assumes "b < length s"
  shows "fst (update_call s a Ms outs) ! b = s ! b"
  using assms
  by (simp add: update_call_def Let_def nth_append split: prod.splits option.splits)

lemma fusion_loop_mismatch:
  assumes "length M \<noteq> n"
  shows "\<exists>cur e. fusion_loop n d (pre @ M # post) gens = (cur, Some e)"
    and "snd (fusion_loop n d pre gens) = None \<Longrightarrow>
           snd (fusion_loop n d (pre @ M # post) gens) = Some MeasurementLengthMismatch"
proof -
  obtain cur r where pre: "fusion_loop n d pre gens = (cur, r)"
    by (cases "fusion_loop n d pre gens")
  have step: "process_measurement n d M cur = (cur, Some MeasurementLengthMismatch)"
    using assms by (simp add: process_measurement_def)
  show "\<exists>cur e. fusion_loop n d (pre @ M # post) gens = (cur, Some e)"
    using pre step by (cases r) (simp_all add: fusion_loop_append)
  show "snd (fusion_loop n d (pre @ M # post) gens) = Some MeasurementLengthMismatch"
    if "snd (fusion_loop n d pre gens) = None"
    using that pre step by (simp add: fusion_loop_append)
qed

text \<open>
  Claim C8 as stated fails: the second measurement has a length other than \<open>n = 1\<close>, and
  the call raises the non-Hermitian phase error while it processes the first measurement,
  before the length of the second is looked at.
\<close>

theorem update_call_mismatch_counterexample:
  "length ''ZZ'' \<noteq> qubit_count [(1, ''X''), (1, ''Y'')] [''Z'', ''ZZ''] \<and>
   update_resource_with_fusions [(1, ''X''), (1, ''Y'')] [''Z'', ''ZZ''] None
     = Inl NonHermitianPhase \<and>
   snd (update_call [[(1, ''X''), (1, ''Y'')]] 0 [''Z'', ''ZZ''] None) = Inl NonHermitianPhase"
  by (simp add: update_call_def update_resource_with_fusions_def qubit_count_def
      outcomes_or_empty_def process_measurement_def anti_idx_def anticommutes_def
      anti_pairs_def outcome_of_def multiply_pauli_def SINGLE_MULT_def)

text \<open>
  Claim C8, amended. If a measurement \<open>M\<close> of the list has a length other than the
  inferred qubit count, the call returns no list: it raises. The exception is the
  measurement-length error when the measurements before \<open>M\<close> were processed without an
  exception, and the exception of that earlier processing otherwise. In both cases the
  caller's list object holds what it held before the call.
\<close>

theorem update_call_mismatch:
  assumes "resource_gens < length s"
    and "fusion_meas = pre @ M # post"
    and "length M \<noteq> qubit_count (s ! resource_gens) fusion_meas"
    and "n = qubit_count (s ! resource_gens) fusion_meas" and "d = outcomes_or_empty outcomes"
  shows "(\<exists>e. snd (update_call s resource_gens fusion_meas outcomes) = Inl e) \<and>
         (if snd (fusion_loop n d pre (s ! resource_gens)) = None
          then snd (update_call s resource_gens fusion_meas outcomes) = Inl MeasurementLengthMismatch
          else \<exists>e. snd (fusion_loop n d pre (s ! resource_gens)) = Some e \<and>
                 snd (update_call s resource_gens fusion_meas outcomes) = Inl e) \<and>
         fst (update_call s resource_gens fusion_meas outcomes) ! resource_gens = s ! resource_gens"
proof -
  let ?gens = "s ! resource_gens"
  have len: "length M \<noteq> n" using assms(3,4) by simp
  have call: "snd (update_call s resource_gens fusion_meas outcomes) =
                (case snd (fusion_loop n d fusion_meas ?gens) of None \<Rightarrow> Inr (length s) | Some e \<Rightarrow> Inl e)"
    using assms(1,4,5)
    by (simp add: update_call_def Let_def split: prod.splits option.splits)
  from fusion_loop_mismatch(1) [OF len, of d pre post ?gens] assms(2)
  obtain cur e where e: "fusion_loop n d fusion_meas ?gens = (cur, Some e)" by auto
  have 1: "\<exists>e. snd (update_call s resource_gens fusion_meas outcomes) = Inl e"
    using call e by simp
  have 2: "if snd (fusion_loop n d pre ?gens) = None
          then snd (update_call s resource_gens fusion_meas outcomes) = Inl MeasurementLengthMismatch
          else \<exists>e. snd (fusion_loop n d pre ?gens) = Some e \<and>
                 snd (update_call s resource_gens fusion_meas outcomes) = Inl e"
  proof (cases "snd (fusion_loop n d pre ?gens)")
    case None
    from fusion_loop_mismatch(2) [OF len None, of post] assms(2) call None
    show ?thesis by simp
  next
    case (Some e')
    then have "fusion_loop n d fusion_meas ?gens = fusion_loop n d pre ?gens"
      using assms(2) by (cases "fusion_loop n d pre ?gens") (simp add: fusion_loop_append)
    with Some call show ?thesis by simp
  qed
  have 3: "fst (update_call s resource_gens fusion_meas outcomes) ! resource_gens = ?gens"
    by (rule update_call_frame [OF assms(1)])
  from 1 2 3 show ?thesis by blast
qed

text \<open>
  Witness of C8: the first measurement is appended to the copy, the second has the wrong
  length; the caller's list still holds its one generator.
\<close>

theorem update_call_mismatch_witness:
  "snd (update_call [[(1, ''XX'')]] 0 [''ZZ'', ''Z''] None) = Inl MeasurementLengthMismatch \<and>
   fst (update_call [[(1, ''XX'')]] 0 [''ZZ'', ''Z''] None) ! 0 = [(1, ''XX'')]"
proof -
  let ?s = "[[(1::int, ''XX'')]]"
  have n: "2 = qubit_count (?s ! 0) [''ZZ'', ''Z'']" by (simp add: qubit_count_def)
  have pre: "fusion_loop 2 Map.empty [''ZZ''] (?s ! 0) = ([(1, ''XX''), (1, ''ZZ'')], None)"
    by (simp add: process_measurement_def anti_idx_def anticommutes_def anti_pairs_def
        outcome_of_def)
  show ?thesis
    using update_call_mismatch [of 0 ?s "[''ZZ'', ''Z'']" "[''ZZ'']" "''Z''" "[]" 2 Map.empty None]
      pre n
    by (simp add: outcomes_or_empty_def)
qed

end
